theory Spec2Isabelle
  imports Main "HOL-Library.Word"
begin

unbundle bit_operations_syntax

section \<open>The file watcher of ghostunnel (watcher.go)\<close>

text \<open>
  \<^verbatim>\<open>watcher.go\<close> watches a fixed list of files and sends \<^verbatim>\<open>true\<close> on a channel when the
  contents of one of them change. It remembers, per base name, the SHA-256 digest of the
  last contents it has seen (\<^verbatim>\<open>map[string][32]byte\<close>), and has two loops around one change
  detector: \<^verbatim>\<open>watchAuto\<close> reacts to fsnotify events, \<^verbatim>\<open>watchTimed\<close> sweeps all files on a timer.

  The embedding passes the state explicitly. A state is the hash map together with the
  trace of what the program has done to the outside world so far: the files it has read,
  the lines it has logged, the paths it has handed to \<^verbatim>\<open>watcher.Add\<close> and the values it has sent
  on \<^verbatim>\<open>notify\<close>, in program order. The file system is a parameter: what \<^verbatim>\<open>ioutil.ReadFile\<close> returns
  for each path at the time of the call; it is one file system for the handling of one
  event and for one sweep, and may be another for the next. A send on \<^verbatim>\<open>notify\<close> is recorded
  when it is made: whether and when a receiver takes the value is outside the model.
\<close>

subsection \<open>Bytes, digests, errors\<close>

type_synonym byte = "8 word"
type_synonym u32 = "32 word"

text \<open>\<^verbatim>\<open>[32]byte\<close>: 256 bits, the first byte of the array the most significant. The zero value
  \<^verbatim>\<open>[32]byte{}\<close> is \<open>0\<close>, and \<^verbatim>\<open>bytes.Equal(a[:], b[:])\<close> on two such arrays is equality.\<close>

type_synonym digest = "256 word"

text \<open>A Go \<^verbatim>\<open>error\<close> value, by its message.\<close>

datatype error = Error string

text \<open>What \<^verbatim>\<open>ioutil.ReadFile\<close> returns for a path: an error, or all the bytes of the file.\<close>

type_synonym filesystem = "string \<Rightarrow> error + byte list"

text \<open>A Go string is a sequence of bytes; so is a \<^typ>\<open>string\<close>. The bytes of a string literal:\<close>

definition bytes :: "string \<Rightarrow> byte list" where
  "bytes s = map (\<lambda>c. of_nat (of_char c)) s"

subsection \<open>crypto/sha256.Sum256\<close>

text \<open>
  \<^verbatim>\<open>sha256.Sum256\<close> belongs to Go's standard library. It is written out here after FIPS 180-4
  (padding, message schedule, 64 rounds per 64-byte block), so that the model runs on
  concrete files. The theorems about the watcher use nothing of it but that it is a
  function into \<^typ>\<open>digest\<close>; only closed examples evaluate it.
\<close>

definition rotr :: "nat \<Rightarrow> u32 \<Rightarrow> u32" where
  "rotr n x = drop_bit n x OR push_bit (32 - n) x"

definition Ch :: "u32 \<Rightarrow> u32 \<Rightarrow> u32 \<Rightarrow> u32" where
  "Ch x y z = (x AND y) XOR (NOT x AND z)"

definition Maj :: "u32 \<Rightarrow> u32 \<Rightarrow> u32 \<Rightarrow> u32" where
  "Maj x y z = (x AND y) XOR (x AND z) XOR (y AND z)"

definition bsig0 :: "u32 \<Rightarrow> u32" where
  "bsig0 x = rotr 2 x XOR rotr 13 x XOR rotr 22 x"

definition bsig1 :: "u32 \<Rightarrow> u32" where
  "bsig1 x = rotr 6 x XOR rotr 11 x XOR rotr 25 x"

definition ssig0 :: "u32 \<Rightarrow> u32" where
  "ssig0 x = rotr 7 x XOR rotr 18 x XOR drop_bit 3 x"

definition ssig1 :: "u32 \<Rightarrow> u32" where
  "ssig1 x = rotr 17 x XOR rotr 19 x XOR drop_bit 10 x"

text \<open>The round constants, in four groups of sixteen, and the initial hash value.\<close>

definition K_a :: "u32 list" where
  "K_a = [0x428A2F98, 0x71374491, 0xB5C0FBCF, 0xE9B5DBA5, 0x3956C25B, 0x59F111F1, 0x923F82A4,
          0xAB1C5ED5, 0xD807AA98, 0x12835B01, 0x243185BE, 0x550C7DC3, 0x72BE5D74, 0x80DEB1FE,
          0x9BDC06A7, 0xC19BF174]"

definition K_b :: "u32 list" where
  "K_b = [0xE49B69C1, 0xEFBE4786, 0x0FC19DC6, 0x240CA1CC, 0x2DE92C6F, 0x4A7484AA, 0x5CB0A9DC,
          0x76F988DA, 0x983E5152, 0xA831C66D, 0xB00327C8, 0xBF597FC7, 0xC6E00BF3, 0xD5A79147,
          0x06CA6351, 0x14292967]"

definition K_c :: "u32 list" where
  "K_c = [0x27B70A85, 0x2E1B2138, 0x4D2C6DFC, 0x53380D13, 0x650A7354, 0x766A0ABB, 0x81C2C92E,
          0x92722C85, 0xA2BFE8A1, 0xA81A664B, 0xC24B8B70, 0xC76C51A3, 0xD192E819, 0xD6990624,
          0xF40E3585, 0x106AA070]"

definition K_d :: "u32 list" where
  "K_d = [0x19A4C116, 0x1E376C08, 0x2748774C, 0x34B0BCB5, 0x391C0CB3, 0x4ED8AA4A, 0x5B9CCA4F,
          0x682E6FF3, 0x748F82EE, 0x78A5636F, 0x84C87814, 0x8CC70208, 0x90BEFFFA, 0xA4506CEB,
          0xBEF9A3F7, 0xC67178F2]"

definition K256 :: "u32 list" where
  "K256 = K_a @ K_b @ K_c @ K_d"

definition H256 :: "u32 list" where
  "H256 = [0x6A09E667, 0xBB67AE85, 0x3C6EF372, 0xA54FF53A, 0x510E527F, 0x9B05688C, 0x1F83D9AB,
           0x5BE0CD19]"

text \<open>Big-endian words of a block; a tail of fewer than four bytes does not occur.\<close>

fun be32 :: "byte list \<Rightarrow> u32 list" where
  "be32 (a # b # c # d # bs) =
     (push_bit 24 (ucast a) OR push_bit 16 (ucast b) OR push_bit 8 (ucast c) OR ucast d) # be32 bs"
| "be32 _ = []"

text \<open>The message schedule, newest word first: \<open>expand n\<close> adds \<open>n\<close> words to the sixteen of
  the block.\<close>

fun expand :: "nat \<Rightarrow> u32 list \<Rightarrow> u32 list" where
  "expand 0 ws = ws"
| "expand (Suc n) ws =
     expand n ((ssig1 (ws ! 1) + ws ! 6 + ssig0 (ws ! 14) + ws ! 15) # ws)"

definition compress :: "u32 \<times> u32 \<times> u32 \<times> u32 \<times> u32 \<times> u32 \<times> u32 \<times> u32 \<Rightarrow> u32 \<times> u32
    \<Rightarrow> u32 \<times> u32 \<times> u32 \<times> u32 \<times> u32 \<times> u32 \<times> u32 \<times> u32" where
  "compress s kw =
     (case s of (a, b, c, d, e, f, g, h) \<Rightarrow>
      case kw of (k, w) \<Rightarrow>
        (let t1 = h + bsig1 e + Ch e f g + k + w;
             t2 = bsig0 a + Maj a b c
         in (t1 + t2, a, b, c, d + t1, e, f, g)))"

definition rounds :: "u32 list \<Rightarrow> u32 list \<Rightarrow> u32 list" where
  "rounds ws hs =
     (case foldl compress (hs ! 0, hs ! 1, hs ! 2, hs ! 3, hs ! 4, hs ! 5, hs ! 6, hs ! 7)
             (zip K256 ws)
      of (a, b, c, d, e, f, g, h) \<Rightarrow> [a, b, c, d, e, f, g, h])"

definition block :: "u32 list \<Rightarrow> byte list \<Rightarrow> u32 list" where
  "block hs p = map2 (+) hs (rounds (rev (expand 48 (rev (be32 p)))) hs)"

fun blocks :: "nat \<Rightarrow> u32 list \<Rightarrow> byte list \<Rightarrow> u32 list" where
  "blocks 0 hs p = hs"
| "blocks (Suc n) hs p = blocks n (block hs (take 64 p)) (drop 64 p)"

definition be64 :: "64 word \<Rightarrow> byte list" where
  "be64 n = map (\<lambda>i. ucast (drop_bit (8 * (7 - i)) n)) [0..<8]"

text \<open>Padding: the byte \<open>0x80\<close>, zero bytes up to 56 modulo 64, the length in bits as a
  64-bit big-endian number.\<close>

definition pad :: "byte list \<Rightarrow> byte list" where
  "pad data =
     data @ [0x80] @ replicate ((119 - length data mod 64) mod 64) 0
       @ be64 (push_bit 3 (of_nat (length data)))"

definition Sum256 :: "byte list \<Rightarrow> digest" where
  "Sum256 data =
     (let p = pad data
      in foldl (\<lambda>acc w. push_bit 32 acc OR ucast w) 0 (blocks (length p div 64) H256 p))"

subsection \<open>path.Base\<close>

text \<open>
  \<^verbatim>\<open>path.Base\<close> of Go's standard library: the last element of a slash-separated path.
  Trailing slashes are removed first; the empty path gives \<^verbatim>\<open>"."\<close>, a path of slashes only
  gives \<^verbatim>\<open>"/"\<close>.
\<close>

definition Base :: "string \<Rightarrow> string" where
  "Base path =
     (if path = [] then ''.''
      else
        let p = rev (dropWhile (\<lambda>c. c = CHR ''/'') (rev path));
            q = rev (takeWhile (\<lambda>c. c \<noteq> CHR ''/'') (rev p))
        in if q = [] then ''/'' else q)"

subsection \<open>The state and the trace\<close>

text \<open>The lines the program logs, one constructor for each format string of the source.\<close>

datatype logline =
    ErrorReadingFile error              \<comment> \<open>\<^verbatim>\<open>"error reading file: %s"\<close>\<close>
  | Sha256 string digest                \<comment> \<open>\<^verbatim>\<open>"sha256(%s) = %s"\<close>, the digest printed in hex\<close>
  | ReceivedFsEvent string              \<comment> \<open>\<^verbatim>\<open>"received fs event for %s"\<close>\<close>
  | DetectedChange string               \<comment> \<open>\<^verbatim>\<open>"detected change on %s"\<close>\<close>
  | NoChange string                     \<comment> \<open>\<^verbatim>\<open>"no change on %s"\<close>\<close>
  | ErrorWatchingFile error             \<comment> \<open>\<^verbatim>\<open>"error watching file: %s"\<close>\<close>
  | RunningTimedReload                  \<comment> \<open>\<^verbatim>\<open>"running timed reload (timer fired)"\<close>\<close>
  | DetectedChangeReloading string      \<comment> \<open>\<^verbatim>\<open>"detected change on %s, reloading"\<close>\<close>
  | NothingChanged                      \<comment> \<open>\<^verbatim>\<open>"nothing changed, not reloading"\<close>\<close>

text \<open>What \<^verbatim>\<open>watcher.Add\<close> is called with: a watched file's path, or \<^verbatim>\<open>path.Dir\<close> of it (kept
  symbolic: no property below depends on which directory that is).\<close>

datatype watched = Path string | Dir string

datatype action =
    ReadFile string                     \<comment> \<open>\<^verbatim>\<open>ioutil.ReadFile(file)\<close>\<close>
  | Printf logline                      \<comment> \<open>\<^verbatim>\<open>logger.Printf(...)\<close>\<close>
  | WatcherAdd watched                  \<comment> \<open>\<^verbatim>\<open>watcher.Add(...)\<close>; the error it returns is dropped\<close>
  | Notify bool                         \<comment> \<open>\<^verbatim>\<open>notify <- true\<close>\<close>

record state =
  hashes :: "string \<rightharpoonup> digest"
  trace :: "action list"

definition emit :: "action \<Rightarrow> state \<Rightarrow> state" where
  "emit a st = st\<lparr>trace := trace st @ [a]\<rparr>"

text \<open>\<^verbatim>\<open>hashes[name]\<close> as an expression: Go gives the zero value of the element type when the
  key is missing.\<close>

definition index :: "(string \<rightharpoonup> digest) \<Rightarrow> string \<Rightarrow> digest" where
  "index m name = (case m name of None \<Rightarrow> 0 | Some h \<Rightarrow> h)"

subsection \<open>hashFile, fileChanged, hashFiles\<close>

text \<open>\<^verbatim>\<open>hashFile\<close> returns \<^verbatim>\<open>[32]byte{}, err\<close> when the read fails; both callers look at \<^verbatim>\<open>err\<close>
  first and drop the array, so the error alone is the result here.\<close>

definition hashFile :: "filesystem \<Rightarrow> string \<Rightarrow> state \<Rightarrow> (error + digest) \<times> state" where
  "hashFile fs file st =
     (case fs file of
        Inl err \<Rightarrow> (Inl err, emit (ReadFile file) st)
      | Inr data \<Rightarrow> (Inr (Sum256 data), emit (ReadFile file) st))"

definition fileChanged :: "filesystem \<Rightarrow> state \<Rightarrow> string \<Rightarrow> bool \<times> state" where
  "fileChanged fs st file =
     (case hashFile fs file st of
        (Inl err, st1) \<Rightarrow> (False, emit (Printf (ErrorReadingFile err)) st1)
      | (Inr newHash, st1) \<Rightarrow>
          (let name = Base file;
               oldHash = index (hashes st1) name
           in if oldHash \<noteq> newHash
              then (True, (emit (Printf (Sha256 name newHash)) st1)
                             \<lparr>hashes := (hashes st1)(name \<mapsto> newHash)\<rparr>)
              else (False, st1)))"

text \<open>The loop of \<^verbatim>\<open>hashFiles\<close>; a file that cannot be read is logged and skipped
  (\<^verbatim>\<open>continue\<close>).\<close>

fun hashFiles_loop :: "filesystem \<Rightarrow> string list \<Rightarrow> state \<Rightarrow> state" where
  "hashFiles_loop fs [] st = st"
| "hashFiles_loop fs (file # files) st =
     (case hashFile fs file st of
        (Inl err, st1) \<Rightarrow> hashFiles_loop fs files (emit (Printf (ErrorReadingFile err)) st1)
      | (Inr hash, st1) \<Rightarrow>
          (let name = Base file
           in hashFiles_loop fs files
                ((emit (Printf (Sha256 name hash)) st1)\<lparr>hashes := (hashes st1)(name \<mapsto> hash)\<rparr>)))"

text \<open>\<^verbatim>\<open>hashFiles\<close> is the first thing either watcher does: the map is new and nothing has
  happened yet.\<close>

definition hashFiles :: "filesystem \<Rightarrow> string list \<Rightarrow> state" where
  "hashFiles fs files = hashFiles_loop fs files \<lparr>hashes = Map.empty, trace = []\<rparr>"

subsection \<open>watchTimed\<close>

text \<open>The inner loop of \<^verbatim>\<open>watchTimed\<close>: every file is checked, \<^verbatim>\<open>change\<close> is set when a check
  returns true and never reset.\<close>

fun sweep :: "filesystem \<Rightarrow> string list \<Rightarrow> bool \<times> state \<Rightarrow> bool \<times> state" where
  "sweep fs [] (change, st) = (change, st)"
| "sweep fs (file # files) (change, st) =
     (case fileChanged fs st file of
        (c, st1) \<Rightarrow>
          if c then sweep fs files (True, emit (Printf (DetectedChangeReloading (Base file))) st1)
          else sweep fs files (change, st1))"

text \<open>One turn of the outer loop, after the ticker has fired.\<close>

definition tick :: "filesystem \<Rightarrow> string list \<Rightarrow> state \<Rightarrow> state" where
  "tick fs files st =
     (case sweep fs files (False, emit (Printf RunningTimedReload) st) of
        (change, st1) \<Rightarrow>
          if change then emit (Notify True) st1 else emit (Printf NothingChanged) st1)"

text \<open>
  \<^verbatim>\<open>watchTimed\<close> never returns. Its run is given up to any number of ticks: \<open>fs0\<close> is the file
  system when the watcher starts, and the list holds the file system at each tick. (The
  duration only decides when the ticks come.)
\<close>

definition watchTimed :: "filesystem \<Rightarrow> string list \<Rightarrow> filesystem list \<Rightarrow> state" where
  "watchTimed fs0 files ticks = foldl (\<lambda>st fs. tick fs files st) (hashFiles fs0 files) ticks"

subsection \<open>watchAuto\<close>

text \<open>\<^verbatim>\<open>fsnotify.Event\<close>; \<^verbatim>\<open>Op\<close> is a \<^verbatim>\<open>uint32\<close> bit mask in which \<^verbatim>\<open>Create\<close> is \<^verbatim>\<open>1 << 0\<close>,
  \<^verbatim>\<open>Write\<close>, \<^verbatim>\<open>Remove\<close>, \<^verbatim>\<open>Rename\<close> and \<^verbatim>\<open>Chmod\<close> the next four bits.\<close>

record Event =
  Name :: string
  Op :: u32

definition Create :: u32 where "Create = 1"
definition Write :: u32 where "Write = 2"
definition Remove :: u32 where "Remove = 4"
definition Rename :: u32 where "Rename = 8"
definition Chmod :: u32 where "Chmod = 16"

text \<open>The two \<^verbatim>\<open>watcher.Add\<close> calls for every file, before the loop.\<close>

fun addWatches :: "string list \<Rightarrow> state \<Rightarrow> state" where
  "addWatches [] st = st"
| "addWatches (file # files) st =
     addWatches files (emit (WatcherAdd (Dir file)) (emit (WatcherAdd (Path file)) st))"

text \<open>What is done for the file an event matches (the body of the \<^verbatim>\<open>if\<close>, up to the
  \<^verbatim>\<open>break\<close>).\<close>

definition matched :: "filesystem \<Rightarrow> Event \<Rightarrow> string \<Rightarrow> state \<Rightarrow> state" where
  "matched fs event file st =
     (let name = Base (Name event);
          st1 = emit (Printf (ReceivedFsEvent name)) st;
          st2 = (if Op event AND Create = Create then emit (WatcherAdd (Path file)) st1 else st1)
      in case fileChanged fs st2 file of
           (c, st3) \<Rightarrow>
             if c then emit (Notify True) (emit (Printf (DetectedChange name)) st3)
             else emit (Printf (NoChange name)) st3)"

text \<open>The loop over the files for one event: it stops at the first file whose base name is
  the event's.\<close>

fun onEvent :: "filesystem \<Rightarrow> Event \<Rightarrow> string list \<Rightarrow> state \<Rightarrow> state" where
  "onEvent fs event [] st = st"
| "onEvent fs event (file # files) st =
     (if Base (Name event) = Base file then matched fs event file st
      else onEvent fs event files st)"

text \<open>What the \<^verbatim>\<open>select\<close> receives: an event, or an error of the watcher.\<close>

datatype received = FromEvents Event | FromErrors error

fun onReceive :: "string list \<Rightarrow> state \<Rightarrow> received \<times> filesystem \<Rightarrow> state" where
  "onReceive files st (FromEvents event, fs) = onEvent fs event files st"
| "onReceive files st (FromErrors err, fs) = emit (Printf (ErrorWatchingFile err)) st"

text \<open>
  \<^verbatim>\<open>watchAuto\<close> panics when \<^verbatim>\<open>fsnotify.NewWatcher\<close> fails and never returns otherwise. Its
  run is given up to any number of received values, each with the file system at the time
  it is handled. \<open>newWatcher\<close> is the error \<^verbatim>\<open>NewWatcher\<close> returns, if any.
\<close>

text \<open>Modelled from the spec: \<^verbatim>\<open>panicOnError\<close> is defined outside \<^verbatim>\<open>watcher.go\<close>. The spec has
  a failure to create the watch mechanism abort the watcher's startup as an unrecoverable
  condition, so an error here ends the run with that error.\<close>

definition panicOnError :: "error option \<Rightarrow> 'a \<Rightarrow> error + 'a" where
  "panicOnError err k = (case err of Some e \<Rightarrow> Inl e | None \<Rightarrow> Inr k)"

definition watchAuto ::
    "error option \<Rightarrow> filesystem \<Rightarrow> string list \<Rightarrow> (received \<times> filesystem) list \<Rightarrow> error + state" where
  "watchAuto newWatcher fs0 files rs =
     (let st = hashFiles fs0 files
      in panicOnError newWatcher (foldl (onReceive files) (addWatches files st) rs))"

subsection \<open>Reading the trace\<close>

text \<open>The values sent on \<^verbatim>\<open>notify\<close>, the files read and the paths handed to \<^verbatim>\<open>watcher.Add\<close>, each
  in order.\<close>

fun notifications :: "action list \<Rightarrow> bool list" where
  "notifications [] = []"
| "notifications (Notify b # as) = b # notifications as"
| "notifications (a # as) = notifications as"

fun reads :: "action list \<Rightarrow> string list" where
  "reads [] = []"
| "reads (ReadFile file # as) = file # reads as"
| "reads (a # as) = reads as"

fun added :: "action list \<Rightarrow> watched list" where
  "added [] = []"
| "added (WatcherAdd w # as) = w # added as"
| "added (a # as) = added as"

subsection \<open>Example files\<close>

text \<open>The scenario of the specification: \<^verbatim>\<open>a.txt\<close> holds \<^verbatim>\<open>hello\<close>, then \<^verbatim>\<open>world\<close>. A second
  watched file, and a file system on which nothing can be read.\<close>

definition no_file :: filesystem where
  "no_file p = Inl (Error ''no such file or directory'')"

definition fs_hello :: filesystem where
  "fs_hello = no_file(''/etc/a.txt'' := Inr (bytes ''hello''))"

definition fs_world :: filesystem where
  "fs_world = no_file(''/etc/a.txt'' := Inr (bytes ''world''))"

definition fs_both :: filesystem where
  "fs_both = no_file(''/etc/a.txt'' := Inr (bytes ''hello''), ''/tmp/b.pem'' := Inr (bytes ''world''))"

text \<open>Two watched files with one base name.\<close>

definition fs_twins :: filesystem where
  "fs_twins = no_file(''/etc/a.txt'' := Inr (bytes ''hello''), ''/tmp/a.txt'' := Inr (bytes ''world''))"

text \<open>The digests of \<^verbatim>\<open>hello\<close> and of \<^verbatim>\<open>world\<close>, as \<^verbatim>\<open>sha256sum\<close> prints them.\<close>

definition D1 :: digest where
  "D1 = 0x2CF24DBA5FB0A30E26E83B2AC5B9E29E1B161E5C1FA7425E73043362938B9824"

definition D2 :: digest where
  "D2 = 0x486EA46224D1BB4FB680F34F7C9AD96A8F24EC88BE73EA8E5A6C65260E9CB8A7"

definition empty_state :: state where
  "empty_state = \<lparr>hashes = Map.empty, trace = []\<rparr>"

definition knows_hello :: state where
  "knows_hello = \<lparr>hashes = [''a.txt'' \<mapsto> D1, ''b.pem'' \<mapsto> D2], trace = []\<rparr>"

section \<open>Properties\<close>

subsection \<open>Auxiliary facts\<close>

lemma hashes_emit [simp]: "hashes (emit a st) = hashes st"
  by (simp add: emit_def)

lemma trace_emit [simp]: "trace (emit a st) = trace st @ [a]"
  by (simp add: emit_def)

lemma notifications_append [simp]:
  "notifications (xs @ ys) = notifications xs @ notifications ys"
  by (induction xs rule: notifications.induct) simp_all

lemma reads_append [simp]: "reads (xs @ ys) = reads xs @ reads ys"
  by (induction xs rule: reads.induct) simp_all

lemma added_append [simp]: "added (xs @ ys) = added xs @ added ys"
  by (induction xs rule: added.induct) simp_all

text \<open>The digests of the two example contents, computed by the definition above; they are
  the values \<^verbatim>\<open>sha256sum\<close> prints.\<close>

lemma Sum256_hello: "Sum256 (bytes ''hello'') = D1"
  unfolding D1_def by code_simp

lemma Sum256_world: "Sum256 (bytes ''world'') = D2"
  unfolding D2_def by code_simp

lemma D1_neq_D2: "D1 \<noteq> D2" "D2 \<noteq> D1" "D1 \<noteq> 0" "D2 \<noteq> 0"
  by (simp_all add: D1_def D2_def)

lemma Base_examples: "Base ''/etc/a.txt'' = ''a.txt''" "Base ''/tmp/b.pem'' = ''b.pem''"
  by (simp_all add: Base_def)

text \<open>The three outcomes of \<^verbatim>\<open>fileChanged\<close>.\<close>

lemma fileChanged_error:
  "fs file = Inl err \<Longrightarrow>
   fileChanged fs st file =
     (False, st\<lparr>trace := trace st @ [ReadFile file, Printf (ErrorReadingFile err)]\<rparr>)"
  by (simp add: fileChanged_def hashFile_def emit_def)

lemma fileChanged_same:
  "fs file = Inr data \<Longrightarrow> index (hashes st) (Base file) = Sum256 data \<Longrightarrow>
   fileChanged fs st file = (False, st\<lparr>trace := trace st @ [ReadFile file]\<rparr>)"
  by (simp add: fileChanged_def hashFile_def emit_def Let_def)

lemma fileChanged_diff:
  "fs file = Inr data \<Longrightarrow> index (hashes st) (Base file) \<noteq> Sum256 data \<Longrightarrow>
   fileChanged fs st file =
     (True, st\<lparr>hashes := (hashes st)(Base file \<mapsto> Sum256 data),
              trace := trace st @ [ReadFile file, Printf (Sha256 (Base file) (Sum256 data))]\<rparr>)"
  by (simp add: fileChanged_def hashFile_def emit_def Let_def)

lemma fs_examples:
  "no_file p = Inl (Error ''no such file or directory'')"
  "fs_hello ''/etc/a.txt'' = Inr (bytes ''hello'')"
  "fs_world ''/etc/a.txt'' = Inr (bytes ''world'')"
  "fs_both ''/etc/a.txt'' = Inr (bytes ''hello'')"
  "fs_both ''/tmp/b.pem'' = Inr (bytes ''world'')"
  by (simp_all add: no_file_def fs_hello_def fs_world_def fs_both_def)

lemma index_Some: "m name = Some h \<Longrightarrow> index m name = h"
  by (simp add: index_def)

lemma index_None: "m name = None \<Longrightarrow> index m name = 0"
  by (simp add: index_def)

text \<open>The outcome of \<^verbatim>\<open>fileChanged\<close> depends on the hash map alone, not on the trace; and
  \<^verbatim>\<open>fileChanged\<close> itself sends nothing.\<close>

lemma fileChanged_hashes_only:
  "hashes s = hashes t \<Longrightarrow>
   fst (fileChanged fs s file) = fst (fileChanged fs t file) \<and>
   hashes (snd (fileChanged fs s file)) = hashes (snd (fileChanged fs t file))"
  by (simp add: fileChanged_def hashFile_def Let_def split: sum.splits)

lemma fileChanged_notifications [simp]:
  "notifications (trace (snd (fileChanged fs st file))) = notifications (trace st)"
  by (simp add: fileChanged_def hashFile_def Let_def split: sum.splits)

subsection \<open>The change detector\<close>

text \<open>
  A successful read with no entry under the base name (claim C1). The source compares the
  new digest with \<^verbatim>\<open>hashes[name]\<close>, which for a missing key is the zero array
  \<^verbatim>\<open>[32]byte{}\<close>. So the call stores the digest and returns true when the digest is not the
  zero array, and stores nothing and returns false when it is. That every such call
  returns true is therefore the same as SHA-256 never giving the zero array, which is
  neither proved nor refuted here.
\<close>

lemma first_read_is_a_change:
  assumes "fs file = Inr data" and "hashes st (Base file) = None" and "Sum256 data \<noteq> 0"
  shows "fileChanged fs st file =
     (True, st\<lparr>hashes := (hashes st)(Base file \<mapsto> Sum256 data),
              trace := trace st @ [ReadFile file, Printf (Sha256 (Base file) (Sum256 data))]\<rparr>)"
  using assms by (intro fileChanged_diff) (simp_all add: index_None)

lemma first_read_is_a_change_example:
  "fs_hello ''/etc/a.txt'' = Inr (bytes ''hello'')
   \<and> hashes empty_state (Base ''/etc/a.txt'') = None
   \<and> Sum256 (bytes ''hello'') \<noteq> 0
   \<and> fileChanged fs_hello empty_state ''/etc/a.txt'' =
       (True, \<lparr>hashes = [''a.txt'' \<mapsto> D1],
               trace = [ReadFile ''/etc/a.txt'', Printf (Sha256 ''a.txt'' D1)]\<rparr>)"
proof -
  have h1: "fs_hello ''/etc/a.txt'' = Inr (bytes ''hello'')"
    by (simp add: fs_examples)
  have h2: "hashes empty_state (Base ''/etc/a.txt'') = None"
    by (simp add: empty_state_def)
  have h3: "Sum256 (bytes ''hello'') \<noteq> 0"
    by (simp add: Sum256_hello D1_neq_D2)
  show ?thesis
    using first_read_is_a_change [of fs_hello "''/etc/a.txt''" "bytes ''hello''" empty_state] h1 h2 h3
    by (simp add: Sum256_hello Base_examples empty_state_def)
qed

lemma first_read_zero_digest:
  assumes "fs file = Inr data" and "hashes st (Base file) = None" and "Sum256 data = 0"
  shows "fileChanged fs st file = (False, st\<lparr>trace := trace st @ [ReadFile file]\<rparr>)"
  using assms by (simp add: fileChanged_same index_None)

lemma first_read_always_a_change_iff:
  "(\<forall>fs st file data.
      fs file = Inr data \<and> hashes st (Base file) = None \<longrightarrow> fst (fileChanged fs st file))
   \<longleftrightarrow> (\<forall>data. Sum256 data \<noteq> 0)"
proof
  assume always: "\<forall>fs st file data.
      fs file = Inr data \<and> hashes st (Base file) = None \<longrightarrow> fst (fileChanged fs st file)"
  show "\<forall>data. Sum256 data \<noteq> 0"
  proof
    fix data
    show "Sum256 data \<noteq> 0"
    proof
      assume z: "Sum256 data = 0"
      let ?fs = "\<lambda>p. Inr data :: error + byte list"
      have "?fs ''a.txt'' = Inr data \<and> hashes empty_state (Base ''a.txt'') = None
          \<longrightarrow> fst (fileChanged ?fs empty_state ''a.txt'')"
        using always [THEN spec, of ?fs, THEN spec, of empty_state, THEN spec, of "''a.txt''",
            THEN spec, of data] .
      then have "fst (fileChanged ?fs empty_state ''a.txt'')"
        by (simp add: empty_state_def)
      moreover have "fileChanged ?fs empty_state ''a.txt'' =
          (False, empty_state\<lparr>trace := trace empty_state @ [ReadFile ''a.txt'']\<rparr>)"
        using z by (simp add: first_read_zero_digest empty_state_def)
      ultimately show False
        by simp
    qed
  qed
next
  assume "\<forall>data. Sum256 data \<noteq> 0"
  then show "\<forall>fs st file data.
      fs file = Inr data \<and> hashes st (Base file) = None \<longrightarrow> fst (fileChanged fs st file)"
    by (simp add: first_read_is_a_change)
qed

text \<open>
  Claim C2. When the read of the file fails, \<^verbatim>\<open>fileChanged\<close> returns false and leaves the
  hash map as it was. Hence the check sends no notification in either loop: in
  \<^verbatim>\<open>watchAuto\<close> the handling of the matched file sends nothing, and in \<^verbatim>\<open>watchTimed\<close> the
  sweep goes on with \<^verbatim>\<open>change\<close> as it was. A later check of the file (on any file system
  \<open>fs'\<close>) gives the result and the map it would have given without the failed one: it
  compares against the last digest stored.
\<close>

theorem read_failure_is_no_change:
  assumes "fs file = Inl err"
  shows "\<not> fst (fileChanged fs st file)
    \<and> hashes (snd (fileChanged fs st file)) = hashes st
    \<and> notifications (trace (matched fs event file st)) = notifications (trace st)
    \<and> sweep fs (file # files) (change, st) = sweep fs files (change, snd (fileChanged fs st file))
    \<and> fst (fileChanged fs' (snd (fileChanged fs st file)) file) = fst (fileChanged fs' st file)
    \<and> hashes (snd (fileChanged fs' (snd (fileChanged fs st file)) file)) =
        hashes (snd (fileChanged fs' st file))"
proof -
  let ?st1 = "st\<lparr>trace := trace st @ [ReadFile file, Printf (ErrorReadingFile err)]\<rparr>"
  have r: "fileChanged fs st file = (False, ?st1)"
    using assms by (simp add: fileChanged_error)
  have m: "notifications (trace (matched fs event file st)) = notifications (trace st)"
    using assms by (simp add: matched_def Let_def fileChanged_error)
  have s: "sweep fs (file # files) (change, st) = sweep fs files (change, snd (fileChanged fs st file))"
    by (simp add: r)
  have l: "hashes ?st1 = hashes st" by simp
  show ?thesis
    using fileChanged_hashes_only [of ?st1 st fs' "file"] l
    by (simp add: r m s del: sweep.simps)
qed

theorem read_failure_is_no_change_witness:
  "no_file ''/etc/a.txt'' = Inl (Error ''no such file or directory'')
   \<and> \<not> fst (fileChanged no_file knows_hello ''/etc/a.txt'')
   \<and> hashes (snd (fileChanged no_file knows_hello ''/etc/a.txt'')) = hashes knows_hello
   \<and> notifications (trace (matched no_file \<lparr>Name = ''/etc/a.txt'', Op = Remove\<rparr> ''/etc/a.txt'' knows_hello))
       = notifications (trace knows_hello)
   \<and> sweep no_file [''/etc/a.txt'', ''/tmp/b.pem''] (False, knows_hello)
       = sweep no_file [''/tmp/b.pem''] (False, snd (fileChanged no_file knows_hello ''/etc/a.txt''))
   \<and> fst (fileChanged fs_world (snd (fileChanged no_file knows_hello ''/etc/a.txt'')) ''/etc/a.txt'')
       = fst (fileChanged fs_world knows_hello ''/etc/a.txt'')
   \<and> hashes (snd (fileChanged fs_world (snd (fileChanged no_file knows_hello ''/etc/a.txt'')) ''/etc/a.txt''))
       = hashes (snd (fileChanged fs_world knows_hello ''/etc/a.txt''))"
proof -
  have h: "no_file ''/etc/a.txt'' = Inl (Error ''no such file or directory'')"
    by (simp add: fs_examples)
  show ?thesis
    using read_failure_is_no_change [of no_file "''/etc/a.txt''" "Error ''no such file or directory''"
        knows_hello "\<lparr>Name = ''/etc/a.txt'', Op = Remove\<rparr>" "[''/tmp/b.pem'']" False fs_world] h
    by blast
qed




text \<open>
  Claim C4. The entry of the file is the digest of its bytes, and the bytes are the same
  at two checks in a row (on \<open>fs1\<close>, then on \<open>fs2\<close>): both return false, and the entry
  under the file's base name is after each what it was before.
\<close>

theorem unchanged_file_is_no_change:
  assumes "hashes st (Base file) = Some (Sum256 data)"
      and "fs1 file = Inr data" and "fs2 file = Inr data"
  shows "\<not> fst (fileChanged fs1 st file)
    \<and> \<not> fst (fileChanged fs2 (snd (fileChanged fs1 st file)) file)
    \<and> hashes (snd (fileChanged fs1 st file)) (Base file) = hashes st (Base file)
    \<and> hashes (snd (fileChanged fs2 (snd (fileChanged fs1 st file)) file)) (Base file) =
        hashes st (Base file)"
proof -
  have i: "index (hashes st) (Base file) = Sum256 data"
    using assms(1) by (rule index_Some)
  have r1: "fileChanged fs1 st file = (False, st\<lparr>trace := trace st @ [ReadFile file]\<rparr>)"
    using assms(2) i by (simp add: fileChanged_same)
  have r2: "fileChanged fs2 (st\<lparr>trace := trace st @ [ReadFile file]\<rparr>) file =
      (False, st\<lparr>trace := trace st @ [ReadFile file, ReadFile file]\<rparr>)"
    using assms(3) i by (simp add: fileChanged_same)
  show ?thesis by (simp add: r1 r2)
qed

theorem unchanged_file_is_no_change_witness:
  "hashes knows_hello (Base ''/etc/a.txt'') = Some (Sum256 (bytes ''hello''))
   \<and> fs_hello ''/etc/a.txt'' = Inr (bytes ''hello'')
   \<and> fs_both ''/etc/a.txt'' = Inr (bytes ''hello'')
   \<and> \<not> fst (fileChanged fs_hello knows_hello ''/etc/a.txt'')
   \<and> \<not> fst (fileChanged fs_both (snd (fileChanged fs_hello knows_hello ''/etc/a.txt'')) ''/etc/a.txt'')
   \<and> hashes (snd (fileChanged fs_hello knows_hello ''/etc/a.txt'')) (Base ''/etc/a.txt'') = Some D1
   \<and> hashes (snd (fileChanged fs_both (snd (fileChanged fs_hello knows_hello ''/etc/a.txt'')) ''/etc/a.txt''))
         (Base ''/etc/a.txt'') = Some D1"
proof -
  have h1: "hashes knows_hello (Base ''/etc/a.txt'') = Some (Sum256 (bytes ''hello''))"
    by (simp add: knows_hello_def Base_examples Sum256_hello)
  have h2: "fs_hello ''/etc/a.txt'' = Inr (bytes ''hello'')"
    and h3: "fs_both ''/etc/a.txt'' = Inr (bytes ''hello'')"
    by (simp_all add: fs_examples)
  show ?thesis
    using unchanged_file_is_no_change [of knows_hello "''/etc/a.txt''" "bytes ''hello''" fs_hello fs_both]
      h1 h2 h3
    by (simp add: Sum256_hello)
qed

text \<open>
  Claim C10. \<^verbatim>\<open>fileChanged(hashes, file)\<close> leaves the entry under every key other than
  \<^verbatim>\<open>path.Base(file)\<close> as it was, whatever it returns and whether or not the read succeeds.
\<close>

theorem fileChanged_frame:
  assumes "name \<noteq> Base file"
  shows "hashes (snd (fileChanged fs st file)) name = hashes st name"
proof -
  consider (failed) err where "fs file = Inl err"
    | (same) data where "fs file = Inr data" and "index (hashes st) (Base file) = Sum256 data"
    | (differs) data where "fs file = Inr data" and "index (hashes st) (Base file) \<noteq> Sum256 data"
    by (cases "fs file") auto
  then show ?thesis
  proof cases
    case failed
    then show ?thesis
      by (simp add: fileChanged_error)
  next
    case same
    then show ?thesis
      by (simp add: fileChanged_same)
  next
    case differs
    then show ?thesis
      using assms by (simp add: fileChanged_diff)
  qed
qed

theorem fileChanged_frame_witness:
  "''b.pem'' \<noteq> Base ''/etc/a.txt''
   \<and> hashes (snd (fileChanged fs_world knows_hello ''/etc/a.txt'')) ''b.pem'' = hashes knows_hello ''b.pem''
   \<and> hashes knows_hello ''b.pem'' = Some D2"
proof -
  have h: "''b.pem'' \<noteq> Base ''/etc/a.txt''"
    by (simp add: Base_examples)
  show ?thesis
    using fileChanged_frame [of "''b.pem''" "''/etc/a.txt''" fs_world knows_hello] h
    by (simp add: knows_hello_def)
qed

subsection \<open>The timed watcher\<close>

text \<open>Every call of \<^verbatim>\<open>fileChanged\<close> reads its file once and adds no watch.\<close>

lemma fileChanged_reads [simp]:
  "reads (trace (snd (fileChanged fs st file))) = reads (trace st) @ [file]"
  by (simp add: fileChanged_def hashFile_def Let_def split: sum.splits)

lemma fileChanged_added [simp]:
  "added (trace (snd (fileChanged fs st file))) = added (trace st)"
  by (simp add: fileChanged_def hashFile_def Let_def split: sum.splits)

text \<open>The sweep: what it does to a longer list, and when it raises its flag.\<close>

lemma sweep_append: "sweep fs (xs @ ys) cs = sweep fs ys (sweep fs xs cs)"
proof (induction xs arbitrary: cs)
  case Nil
  then show ?case by (cases cs) simp
next
  case (Cons x xs)
  then show ?case by (cases cs) (simp split: prod.splits)
qed

lemma sweep_notifications [simp]:
  "notifications (trace (snd (sweep fs files (c, st)))) = notifications (trace st)"
proof (induction files arbitrary: c st)
  case Nil
  show ?case by simp
next
  case (Cons x xs)
  obtain b st1 where r: "fileChanged fs st x = (b, st1)"
    by (cases "fileChanged fs st x")
  have "notifications (trace st1) = notifications (trace st)"
    using fileChanged_notifications [of fs st x] by (simp add: r)
  then show ?case
    by (simp add: r Cons.IH)
qed

lemma sweep_snoc:
  "fst (sweep fs (xs @ [x]) (False, st)) =
     (fst (sweep fs xs (False, st)) \<or> fst (fileChanged fs (snd (sweep fs xs (False, st))) x))"
proof -
  obtain c st1 where r: "sweep fs xs (False, st) = (c, st1)"
    by (cases "sweep fs xs (False, st)")
  show ?thesis
    by (simp add: sweep_append r split: prod.splits)
qed

lemma sweep_detects:
  "fst (sweep fs files (False, st)) =
     (\<exists>i<length files. fst (fileChanged fs (snd (sweep fs (take i files) (False, st))) (files ! i)))"
proof (induction files rule: rev_induct)
  case Nil
  show ?case by simp
next
  case (snoc x xs)
  have "(\<exists>i<length (xs @ [x]).
          fst (fileChanged fs (snd (sweep fs (take i (xs @ [x])) (False, st))) ((xs @ [x]) ! i))) =
        ((\<exists>i<length xs. fst (fileChanged fs (snd (sweep fs (take i xs) (False, st))) (xs ! i)))
          \<or> fst (fileChanged fs (snd (sweep fs xs (False, st))) x))"
    (is "?L = (?A \<or> ?B)")
  proof
    assume ?L
    then obtain i where i: "i < length (xs @ [x])"
      and c: "fst (fileChanged fs (snd (sweep fs (take i (xs @ [x])) (False, st))) ((xs @ [x]) ! i))"
      by blast
    show "?A \<or> ?B"
    proof (cases "i < length xs")
      case True
      with c have "fst (fileChanged fs (snd (sweep fs (take i xs) (False, st))) (xs ! i))"
        by (simp add: nth_append)
      with True show ?thesis by blast
    next
      case False
      with i have "i = length xs" by simp
      with c show ?thesis by simp
    qed
  next
    assume "?A \<or> ?B"
    then show ?L
    proof
      assume ?A
      then obtain i where "i < length xs"
        and "fst (fileChanged fs (snd (sweep fs (take i xs) (False, st))) (xs ! i))"
        by blast
      then have "i < length (xs @ [x]) \<and>
          fst (fileChanged fs (snd (sweep fs (take i (xs @ [x])) (False, st))) ((xs @ [x]) ! i))"
        by (simp add: nth_append)
      then show ?L by blast
    next
      assume ?B
      then have "length xs < length (xs @ [x]) \<and>
          fst (fileChanged fs (snd (sweep fs (take (length xs) (xs @ [x])) (False, st)))
                ((xs @ [x]) ! length xs))"
        by simp
      then show ?L by blast
    qed
  qed
  then show ?case
    by (simp only: sweep_snoc snoc.IH)
qed

text \<open>
  Claim C5. One turn of the loop of \<^verbatim>\<open>watchTimed\<close> sends \<^verbatim>\<open>true\<close> once if \<^verbatim>\<open>fileChanged\<close> returned
  true for at least one file of the list during the sweep (the call for the \<open>i\<close>-th file
  being made in the state the sweep over the files before it has left), and sends nothing
  otherwise; so at most one notification per sweep, however many files changed.
\<close>

theorem one_notification_per_sweep:
  "notifications (trace (tick fs files st)) =
     notifications (trace st) @
       (if \<exists>i<length files.
             fst (fileChanged fs
                    (snd (sweep fs (take i files) (False, emit (Printf RunningTimedReload) st)))
                    (files ! i))
        then [True] else [])
   \<and> length (notifications (trace (tick fs files st))) \<le> length (notifications (trace st)) + 1"
proof -
  let ?st0 = "emit (Printf RunningTimedReload) st"
  obtain c st1 where r: "sweep fs files (False, ?st0) = (c, st1)"
    by (cases "sweep fs files (False, ?st0)")
  have n: "notifications (trace st1) = notifications (trace st)"
    using sweep_notifications [of fs files False ?st0] by (simp add: r)
  have c: "c = (\<exists>i<length files.
             fst (fileChanged fs (snd (sweep fs (take i files) (False, ?st0))) (files ! i)))"
    using sweep_detects [of fs files ?st0] by (simp add: r)
  have "notifications (trace (tick fs files st)) = notifications (trace st) @ (if c then [True] else [])"
    by (simp add: tick_def r n)
  then show ?thesis
    unfolding c by simp
qed


subsection \<open>The event-driven watcher\<close>

text \<open>The loop with its \<^verbatim>\<open>break\<close> handles the first file whose base name is the event's, if
  there is one.\<close>

lemma onEvent_find:
  "onEvent fs event files st =
     (case find (\<lambda>file. Base (Name event) = Base file) files of
        None \<Rightarrow> st
      | Some file \<Rightarrow> matched fs event file st)"
  by (induction files) simp_all

lemma matched_reads [simp]:
  "reads (trace (matched fs event file st)) = reads (trace st) @ [file]"
  by (simp add: matched_def Let_def split_beta)

lemma matched_notifications:
  "notifications (trace (matched fs event file st)) =
     notifications (trace st) @
       (if fst (fileChanged fs
                  (if Op event AND Create = Create
                   then emit (WatcherAdd (Path file))
                          (emit (Printf (ReceivedFsEvent (Base (Name event)))) st)
                   else emit (Printf (ReceivedFsEvent (Base (Name event)))) st) file)
        then [True] else [])"
  by (simp add: matched_def Let_def split_beta)

lemma matched_added:
  "added (trace (matched fs event file st)) =
     added (trace st) @ (if Op event AND Create = Create then [Path file] else [])"
  by (simp add: matched_def Let_def split_beta)

lemma fileChanged_trace_prefix:
  "\<exists>rest. trace (snd (fileChanged fs st file)) = trace st @ ReadFile file # rest"
  by (simp add: fileChanged_def hashFile_def Let_def split: sum.splits)

text \<open>
  Claim C6. For one event, \<^verbatim>\<open>watchAuto\<close> handles the first file of the list whose base name
  is the base name of the event's \<^verbatim>\<open>Name\<close> and no other file, also when later files have
  the same base name; without such a file it does nothing. \<^verbatim>\<open>fileChanged\<close> is called at most
  once (each call reads its file once: the event adds that one read, or none), and at most
  one notification is sent.
\<close>

theorem first_match_only:
  "onEvent fs event files st =
     (case find (\<lambda>file. Base (Name event) = Base file) files of
        None \<Rightarrow> st
      | Some file \<Rightarrow> matched fs event file st)
   \<and> reads (trace (onEvent fs event files st)) =
       reads (trace st) @
         (case find (\<lambda>file. Base (Name event) = Base file) files of
            None \<Rightarrow> []
          | Some file \<Rightarrow> [file])
   \<and> length (notifications (trace (onEvent fs event files st)))
       \<le> length (notifications (trace st)) + 1"
proof (cases "find (\<lambda>file. Base (Name event) = Base file) files")
  case None
  then have "onEvent fs event files st = st"
    by (simp add: onEvent_find)
  with None show ?thesis
    by simp
next
  case (Some first)
  then have m: "onEvent fs event files st = matched fs event first st"
    by (simp add: onEvent_find)
  have "length (notifications (trace (matched fs event first st)))
      \<le> length (notifications (trace st)) + 1"
    by (simp add: matched_notifications)
  with Some m show ?thesis
    by simp
qed

text \<open>
  Claim C7. When the \<^verbatim>\<open>Op\<close> of an event has the \<^verbatim>\<open>Create\<close> bit and the event matches a watched
  file (the first of the list with its base name), the watcher calls \<^verbatim>\<open>watcher.Add\<close> with
  that file's full path, and does so before \<^verbatim>\<open>fileChanged\<close> reads the file: the trace goes
  on with the log line for the event, the \<^verbatim>\<open>Add\<close>, the read.
\<close>

theorem create_adds_the_file_again:
  assumes "Op event AND Create = Create"
      and "find (\<lambda>file. Base (Name event) = Base file) files = Some file"
  shows "(\<exists>rest. trace (onEvent fs event files st) =
            trace st @ [Printf (ReceivedFsEvent (Base (Name event))),
                        WatcherAdd (Path file), ReadFile file] @ rest)
    \<and> added (trace (onEvent fs event files st)) = added (trace st) @ [Path file]
    \<and> reads (trace (onEvent fs event files st)) = reads (trace st) @ [file]"
proof -
  let ?st2 = "emit (WatcherAdd (Path file)) (emit (Printf (ReceivedFsEvent (Base (Name event)))) st)"
  have m: "onEvent fs event files st = matched fs event file st"
    using assms(2) by (simp add: onEvent_find)
  obtain rest where r: "trace (snd (fileChanged fs ?st2 file)) = trace ?st2 @ ReadFile file # rest"
    using fileChanged_trace_prefix [of fs ?st2 "file"] by blast
  have "\<exists>rest'. trace (matched fs event file st) =
      trace st @ [Printf (ReceivedFsEvent (Base (Name event))), WatcherAdd (Path file), ReadFile file]
        @ rest'"
    using assms(1) by (simp add: matched_def Let_def split_beta r)
  then show ?thesis
    using assms(1) by (simp add: m matched_added)
qed


theorem create_adds_the_file_again_witness:
  "Op \<lparr>Name = ''/etc/a.txt'', Op = Create OR Write\<rparr> AND Create = Create
   \<and> find (\<lambda>file. Base (Name \<lparr>Name = ''/etc/a.txt'', Op = Create OR Write\<rparr>) = Base file)
         [''/tmp/b.pem'', ''/etc/a.txt''] = Some ''/etc/a.txt''
   \<and> (\<exists>rest. trace (onEvent fs_world \<lparr>Name = ''/etc/a.txt'', Op = Create OR Write\<rparr>
                        [''/tmp/b.pem'', ''/etc/a.txt''] knows_hello) =
          trace knows_hello @ [Printf (ReceivedFsEvent ''a.txt''), WatcherAdd (Path ''/etc/a.txt''),
                               ReadFile ''/etc/a.txt''] @ rest)
   \<and> added (trace (onEvent fs_world \<lparr>Name = ''/etc/a.txt'', Op = Create OR Write\<rparr>
                      [''/tmp/b.pem'', ''/etc/a.txt''] knows_hello)) =
       added (trace knows_hello) @ [Path ''/etc/a.txt'']
   \<and> reads (trace (onEvent fs_world \<lparr>Name = ''/etc/a.txt'', Op = Create OR Write\<rparr>
                      [''/tmp/b.pem'', ''/etc/a.txt''] knows_hello)) =
       reads (trace knows_hello) @ [''/etc/a.txt'']"
proof -
  let ?e = "\<lparr>Name = ''/etc/a.txt'', Op = Create OR Write\<rparr>"
  have h1: "Op ?e AND Create = Create"
    by (simp add: Create_def Write_def)
  have h2: "find (\<lambda>file. Base (Name ?e) = Base file) [''/tmp/b.pem'', ''/etc/a.txt''] = Some ''/etc/a.txt''"
    by (simp add: Base_examples)
  show ?thesis
    using create_adds_the_file_again [of ?e "[''/tmp/b.pem'', ''/etc/a.txt'']" "''/etc/a.txt''"
        fs_world knows_hello] h1 h2
    by (simp add: Base_examples)
qed

subsection \<open>The initial population\<close>

lemma hashFiles_loop_entry:
  "hashes (hashFiles_loop fs files st) name =
     (let rs = filter (\<lambda>file. Base file = name \<and> \<not> isl (fs file)) files
      in if rs = [] then hashes st name else Some (Sum256 (projr (fs (last rs)))))"
proof (induction files arbitrary: st)
  case Nil
  show ?case by simp
next
  case (Cons x xs)
  show ?case
  proof (cases "fs x")
    case (Inl err)
    then show ?thesis
      by (simp add: hashFile_def Cons.IH Let_def)
  next
    case (Inr data)
    then show ?thesis
      by (simp add: hashFile_def Cons.IH Let_def)
  qed
qed

lemma hashFiles_loop_reads:
  "reads (trace (hashFiles_loop fs files st)) = reads (trace st) @ files"
proof (induction files arbitrary: st)
  case Nil
  show ?case by simp
next
  case (Cons x xs)
  show ?case
    by (cases "fs x") (simp_all add: hashFile_def Cons.IH Let_def)
qed

text \<open>
  Claim C8, as amended. \<^verbatim>\<open>hashFiles(files)\<close> reads every file of the list, in order, whether
  or not earlier reads failed. The map it returns has an entry under a base name exactly
  when a file of the list with that base name can be read, and the entry is the SHA-256
  digest of the full contents of the last such file in the list. So a readable file has
  its own digest under its base name unless a later readable file has the same base name,
  and a file that cannot be read adds no entry.
\<close>

theorem hashFiles_last_readable:
  "hashes (hashFiles fs files) name =
     (let rs = filter (\<lambda>file. Base file = name \<and> \<not> isl (fs file)) files
      in if rs = [] then None else Some (Sum256 (projr (fs (last rs)))))
   \<and> reads (trace (hashFiles fs files)) = files"
proof -
  let ?new = "\<lparr>hashes = Map.empty, trace = []\<rparr>"
  have entry: "hashes (hashFiles_loop fs files ?new) name =
      (let rs = filter (\<lambda>file. Base file = name \<and> \<not> isl (fs file)) files
       in if rs = [] then hashes ?new name else Some (Sum256 (projr (fs (last rs)))))"
    by (rule hashFiles_loop_entry)
  have all_read: "reads (trace (hashFiles_loop fs files ?new)) = reads (trace ?new) @ files"
    by (rule hashFiles_loop_reads)
  from entry all_read show ?thesis
    by (simp add: hashFiles_def Let_def)
qed

text \<open>
  The claim as stated promises each readable file its own digest and each unreadable file
  no entry. With \<^verbatim>\<open>/etc/a.txt\<close> and \<^verbatim>\<open>/tmp/a.txt\<close> both watched, the entry \<^verbatim>\<open>a.txt\<close> holds the
  digest of the second file, not of the first; and when only \<^verbatim>\<open>/etc/a.txt\<close> can be read,
  the unreadable \<^verbatim>\<open>/tmp/a.txt\<close> finds an entry under its base name all the same.
\<close>

lemma Base_tmp_a: "Base ''/tmp/a.txt'' = ''a.txt''"
  by (simp add: Base_def)

theorem hashFiles_counterexample:
  "fs_twins ''/etc/a.txt'' = Inr (bytes ''hello'')
   \<and> hashes (hashFiles fs_twins [''/etc/a.txt'', ''/tmp/a.txt'']) (Base ''/etc/a.txt'')
       \<noteq> Some (Sum256 (bytes ''hello''))
   \<and> fs_hello ''/tmp/a.txt'' = Inl (Error ''no such file or directory'')
   \<and> hashes (hashFiles fs_hello [''/tmp/a.txt'', ''/etc/a.txt'']) (Base ''/tmp/a.txt'') \<noteq> None"
  by (simp add: hashFiles_def hashFile_def fs_twins_def fs_hello_def no_file_def Base_examples
      Base_tmp_a Sum256_hello Sum256_world D1_neq_D2 Let_def)


subsection \<open>The hash map during a run\<close>

text \<open>\<^verbatim>\<open>fileChanged\<close> leaves the map alone, or returns true and writes the entry of the file's
  base name. Every step of either loop keeps the keys it finds and adds base names of
  watched files only.\<close>

lemma fileChanged_store:
  "hashes (snd (fileChanged fs st file)) = hashes st
   \<or> fst (fileChanged fs st file)
      \<and> (\<exists>d. hashes (snd (fileChanged fs st file)) = (hashes st)(Base file \<mapsto> d))"
  by (auto simp: fileChanged_def hashFile_def Let_def split: sum.splits)

lemma fileChanged_dom_mono:
  "dom (hashes st) \<subseteq> dom (hashes (snd (fileChanged fs st file)))"
  using fileChanged_store [of fs st "file"] by auto

lemma fileChanged_dom_bound:
  "dom (hashes (snd (fileChanged fs st file))) \<subseteq> insert (Base file) (dom (hashes st))"
  using fileChanged_store [of fs st "file"] by auto

lemma hashFiles_loop_Inl:
  "fs x = Inl err \<Longrightarrow>
   hashFiles_loop fs (x # xs) st =
     hashFiles_loop fs xs (emit (Printf (ErrorReadingFile err)) (emit (ReadFile x) st))"
  by (simp add: hashFile_def)

lemma hashFiles_loop_Inr:
  "fs x = Inr data \<Longrightarrow>
   hashFiles_loop fs (x # xs) st =
     hashFiles_loop fs xs
       ((emit (Printf (Sha256 (Base x) (Sum256 data))) (emit (ReadFile x) st))
          \<lparr>hashes := (hashes st)(Base x \<mapsto> Sum256 data)\<rparr>)"
  by (simp add: hashFile_def Let_def)

lemma hashFiles_loop_dom_mono:
  "dom (hashes st) \<subseteq> dom (hashes (hashFiles_loop fs files st))"
proof (induction files arbitrary: st)
  case Nil
  show ?case by simp
next
  case (Cons x xs)
  show ?case
  proof (cases "fs x")
    case (Inl err)
    let ?st' = "emit (Printf (ErrorReadingFile err)) (emit (ReadFile x) st)"
    have "dom (hashes ?st') \<subseteq> dom (hashes (hashFiles_loop fs xs ?st'))"
      by (rule Cons.IH)
    then show ?thesis
      unfolding hashFiles_loop_Inl [of fs x err, OF Inl] by simp
  next
    case (Inr data)
    let ?st' = "(emit (Printf (Sha256 (Base x) (Sum256 data))) (emit (ReadFile x) st))
                  \<lparr>hashes := (hashes st)(Base x \<mapsto> Sum256 data)\<rparr>"
    have "dom (hashes ?st') \<subseteq> dom (hashes (hashFiles_loop fs xs ?st'))"
      by (rule Cons.IH)
    moreover have "dom (hashes st) \<subseteq> dom (hashes ?st')"
      by auto
    ultimately show ?thesis
      unfolding hashFiles_loop_Inr [of fs x data, OF Inr] by (rule order_trans [rotated])
  qed
qed

lemma hashFiles_loop_dom_bound:
  "dom (hashes (hashFiles_loop fs files st)) \<subseteq> dom (hashes st) \<union> Base ` set files"
proof (induction files arbitrary: st)
  case Nil
  show ?case by simp
next
  case (Cons x xs)
  show ?case
  proof (cases "fs x")
    case (Inl err)
    let ?st' = "emit (Printf (ErrorReadingFile err)) (emit (ReadFile x) st)"
    have "dom (hashes (hashFiles_loop fs xs ?st')) \<subseteq> dom (hashes ?st') \<union> Base ` set xs"
      by (rule Cons.IH)
    moreover have "dom (hashes ?st') \<union> Base ` set xs \<subseteq> dom (hashes st) \<union> Base ` set (x # xs)"
      by auto
    ultimately show ?thesis
      unfolding hashFiles_loop_Inl [of fs x err, OF Inl] by (rule order_trans)
  next
    case (Inr data)
    let ?st' = "(emit (Printf (Sha256 (Base x) (Sum256 data))) (emit (ReadFile x) st))
                  \<lparr>hashes := (hashes st)(Base x \<mapsto> Sum256 data)\<rparr>"
    have "dom (hashes (hashFiles_loop fs xs ?st')) \<subseteq> dom (hashes ?st') \<union> Base ` set xs"
      by (rule Cons.IH)
    moreover have "dom (hashes ?st') \<union> Base ` set xs \<subseteq> dom (hashes st) \<union> Base ` set (x # xs)"
      by auto
    ultimately show ?thesis
      unfolding hashFiles_loop_Inr [of fs x data, OF Inr] by (rule order_trans)
  qed
qed

lemma sweep_dom_mono:
  "dom (hashes st) \<subseteq> dom (hashes (snd (sweep fs xs (c, st))))"
proof (induction xs arbitrary: c st)
  case Nil
  show ?case by simp
next
  case (Cons x xs)
  obtain b st1 where r: "fileChanged fs st x = (b, st1)"
    by (cases "fileChanged fs st x")
  have d: "dom (hashes st) \<subseteq> dom (hashes st1)"
    using fileChanged_dom_mono [of st fs x] by (simp add: r)
  show ?case
  proof (cases b)
    case True
    have "dom (hashes st1) \<subseteq>
        dom (hashes (snd (sweep fs xs (True, emit (Printf (DetectedChangeReloading (Base x))) st1))))"
      using Cons.IH [of "emit (Printf (DetectedChangeReloading (Base x))) st1" True] by simp
    with d show ?thesis
      by (simp add: r True; blast)
  next
    case False
    have "dom (hashes st1) \<subseteq> dom (hashes (snd (sweep fs xs (c, st1))))"
      by (rule Cons.IH)
    with d show ?thesis
      by (simp add: r False; blast)
  qed
qed

lemma sweep_dom_bound:
  "dom (hashes (snd (sweep fs xs (c, st)))) \<subseteq> dom (hashes st) \<union> Base ` set xs"
proof (induction xs arbitrary: c st)
  case Nil
  show ?case by simp
next
  case (Cons x xs)
  obtain b st1 where r: "fileChanged fs st x = (b, st1)"
    by (cases "fileChanged fs st x")
  have d: "dom (hashes st1) \<subseteq> insert (Base x) (dom (hashes st))"
    using fileChanged_dom_bound [of fs st x] by (simp add: r)
  show ?case
  proof (cases b)
    case True
    have "dom (hashes (snd (sweep fs xs (True, emit (Printf (DetectedChangeReloading (Base x))) st1))))
        \<subseteq> dom (hashes st1) \<union> Base ` set xs"
      using Cons.IH [of True "emit (Printf (DetectedChangeReloading (Base x))) st1"] by simp
    with d show ?thesis
      by (simp add: r True; blast)
  next
    case False
    have "dom (hashes (snd (sweep fs xs (c, st1)))) \<subseteq> dom (hashes st1) \<union> Base ` set xs"
      by (rule Cons.IH)
    with d show ?thesis
      by (simp add: r False; blast)
  qed
qed

lemma tick_dom_mono: "dom (hashes st) \<subseteq> dom (hashes (tick fs files st))"
  using sweep_dom_mono [of "emit (Printf RunningTimedReload) st" fs files False]
  by (simp add: tick_def split_beta)

lemma tick_dom_bound: "dom (hashes (tick fs files st)) \<subseteq> dom (hashes st) \<union> Base ` set files"
  using sweep_dom_bound [of fs files False "emit (Printf RunningTimedReload) st"]
  by (simp add: tick_def split_beta)

lemma matched_dom_mono: "dom (hashes st) \<subseteq> dom (hashes (matched fs event file st))"
  using fileChanged_dom_mono [of "emit (Printf (ReceivedFsEvent (Base (Name event)))) st" fs "file"]
    fileChanged_dom_mono [of "emit (WatcherAdd (Path file))
        (emit (Printf (ReceivedFsEvent (Base (Name event)))) st)" fs "file"]
  by (simp add: matched_def Let_def split_beta)

lemma matched_dom_bound:
  "dom (hashes (matched fs event file st)) \<subseteq> insert (Base file) (dom (hashes st))"
  using fileChanged_dom_bound [of fs "emit (Printf (ReceivedFsEvent (Base (Name event)))) st" "file"]
    fileChanged_dom_bound [of fs "emit (WatcherAdd (Path file))
        (emit (Printf (ReceivedFsEvent (Base (Name event)))) st)" "file"]
  by (simp add: matched_def Let_def split_beta)

lemma onEvent_dom_mono: "dom (hashes st) \<subseteq> dom (hashes (onEvent fs event files st))"
  by (induction files) (simp_all add: matched_dom_mono)

lemma onEvent_dom_bound:
  "dom (hashes (onEvent fs event files st)) \<subseteq> dom (hashes st) \<union> Base ` set files"
proof (induction files)
  case Nil
  show ?case by simp
next
  case (Cons x xs)
  show ?case
    using Cons.IH matched_dom_bound [of fs event x st] by (simp; blast)
qed

lemma onReceive_dom_mono: "dom (hashes st) \<subseteq> dom (hashes (onReceive files st r))"
  by (cases "(files, st, r)" rule: onReceive.cases) (simp_all add: onEvent_dom_mono)

lemma onReceive_dom_bound:
  "dom (hashes (onReceive files st r)) \<subseteq> dom (hashes st) \<union> Base ` set files"
  by (cases "(files, st, r)" rule: onReceive.cases) (simp_all add: onEvent_dom_bound)

lemma addWatches_hashes [simp]: "hashes (addWatches files st) = hashes st"
  by (induction files arbitrary: st) simp_all

lemma ticks_dom_mono:
  "dom (hashes st) \<subseteq> dom (hashes (foldl (\<lambda>st fs. tick fs files st) st ticks))"
proof (induction ticks arbitrary: st)
  case Nil
  show ?case by simp
next
  case (Cons fs ticks)
  show ?case
    using tick_dom_mono [of st fs files] Cons.IH [of "tick fs files st"] by simp
qed

lemma ticks_dom_bound:
  "dom (hashes (foldl (\<lambda>st fs. tick fs files st) st ticks)) \<subseteq> dom (hashes st) \<union> Base ` set files"
proof (induction ticks arbitrary: st)
  case Nil
  show ?case by simp
next
  case (Cons fs ticks)
  show ?case
    using tick_dom_bound [of fs files st] Cons.IH [of "tick fs files st"] by (simp; blast)
qed

lemma received_dom_mono:
  "dom (hashes st) \<subseteq> dom (hashes (foldl (onReceive files) st rs))"
proof (induction rs arbitrary: st)
  case Nil
  show ?case by simp
next
  case (Cons r rs)
  show ?case
    using onReceive_dom_mono [of st files r] Cons.IH [of "onReceive files st r"] by simp
qed

lemma received_dom_bound:
  "dom (hashes (foldl (onReceive files) st rs)) \<subseteq> dom (hashes st) \<union> Base ` set files"
proof (induction rs arbitrary: st)
  case Nil
  show ?case by simp
next
  case (Cons r rs)
  show ?case
    using onReceive_dom_bound [of files st r] Cons.IH [of "onReceive files st r"] by (simp; blast)
qed

lemma hashFiles_dom: "dom (hashes (hashFiles fs files)) \<subseteq> Base ` set files"
  using hashFiles_loop_dom_bound [of fs files "\<lparr>hashes = Map.empty, trace = []\<rparr>"]
  by (simp add: hashFiles_def)

text \<open>
  Claim C9. The map is a function from base names to digests, so it has at most one entry
  per base name. From the initial population on, through any number of ticks of
  \<^verbatim>\<open>watchTimed\<close> and any number of events and errors received by \<^verbatim>\<open>watchAuto\<close>, every key
  of the map is the base name of a watched file, and a key present at one point of the
  run is present at every later point: no entry is deleted. The only writes after the
  population are those of \<^verbatim>\<open>fileChanged\<close> when it returns true, to the entry of the file's
  base name.
\<close>

theorem store_keys_are_base_names:
  assumes "watchAuto newWatcher fs0 files rs = Inr st"
      and "watchAuto newWatcher fs0 files (rs @ rs') = Inr st'"
  shows "dom (hashes (hashFiles fs0 files)) \<subseteq> Base ` set files
    \<and> dom (hashes (watchTimed fs0 files ticks)) \<subseteq> Base ` set files
    \<and> dom (hashes (watchTimed fs0 files ticks)) \<subseteq> dom (hashes (watchTimed fs0 files (ticks @ ticks')))
    \<and> dom (hashes st) \<subseteq> Base ` set files
    \<and> dom (hashes st) \<subseteq> dom (hashes st')
    \<and> (hashes (snd (fileChanged fs s file)) = hashes s
        \<or> fst (fileChanged fs s file)
           \<and> (\<exists>d. hashes (snd (fileChanged fs s file)) = (hashes s)(Base file \<mapsto> d)))"
proof -
  let ?h = "hashFiles fs0 files"
  have a: "dom (hashes ?h) \<subseteq> Base ` set files"
    by (rule hashFiles_dom)
  have b: "dom (hashes (watchTimed fs0 files ticks)) \<subseteq> Base ` set files"
    using ticks_dom_bound [of files ?h ticks] a by (simp add: watchTimed_def; blast)
  have c: "dom (hashes (watchTimed fs0 files ticks)) \<subseteq> dom (hashes (watchTimed fs0 files (ticks @ ticks')))"
    by (simp add: watchTimed_def ticks_dom_mono)
  have st: "st = foldl (onReceive files) (addWatches files ?h) rs"
    using assms(1) by (simp add: watchAuto_def panicOnError_def split: option.splits)
  have st': "st' = foldl (onReceive files) st rs'"
    using assms(2) by (simp add: watchAuto_def panicOnError_def st split: option.splits)
  have d: "dom (hashes st) \<subseteq> Base ` set files"
    using received_dom_bound [of files "addWatches files ?h" rs] a by (simp add: st; blast)
  have e: "dom (hashes st) \<subseteq> dom (hashes st')"
    unfolding st' by (rule received_dom_mono)
  show ?thesis
    using a b c d e fileChanged_store [of fs s "file"] by blast
qed


theorem store_keys_are_base_names_witness:
  "watchAuto None fs_hello [''/etc/a.txt'']
       [(FromEvents \<lparr>Name = ''/etc/a.txt'', Op = Write\<rparr>, fs_world)] =
     Inr (foldl (onReceive [''/etc/a.txt''])
            (addWatches [''/etc/a.txt''] (hashFiles fs_hello [''/etc/a.txt'']))
            [(FromEvents \<lparr>Name = ''/etc/a.txt'', Op = Write\<rparr>, fs_world)])
   \<and> dom (hashes (hashFiles fs_hello [''/etc/a.txt''])) \<subseteq> Base ` set [''/etc/a.txt'']
   \<and> dom (hashes (watchTimed fs_hello [''/etc/a.txt''] [fs_world])) \<subseteq> Base ` set [''/etc/a.txt'']
   \<and> dom (hashes (watchTimed fs_hello [''/etc/a.txt''] [fs_world]))
       \<subseteq> dom (hashes (watchTimed fs_hello [''/etc/a.txt''] ([fs_world] @ [no_file])))
   \<and> dom (hashes (foldl (onReceive [''/etc/a.txt''])
            (addWatches [''/etc/a.txt''] (hashFiles fs_hello [''/etc/a.txt'']))
            [(FromEvents \<lparr>Name = ''/etc/a.txt'', Op = Write\<rparr>, fs_world)]))
       \<subseteq> Base ` set [''/etc/a.txt'']
   \<and> dom (hashes (foldl (onReceive [''/etc/a.txt''])
            (addWatches [''/etc/a.txt''] (hashFiles fs_hello [''/etc/a.txt'']))
            [(FromEvents \<lparr>Name = ''/etc/a.txt'', Op = Write\<rparr>, fs_world)]))
       \<subseteq> dom (hashes (foldl (onReceive [''/etc/a.txt''])
            (addWatches [''/etc/a.txt''] (hashFiles fs_hello [''/etc/a.txt'']))
            ([(FromEvents \<lparr>Name = ''/etc/a.txt'', Op = Write\<rparr>, fs_world)]
              @ [(FromEvents \<lparr>Name = ''/etc/a.txt'', Op = Remove\<rparr>, no_file)])))"
proof -
  let ?files = "[''/etc/a.txt'']"
  let ?rs = "[(FromEvents \<lparr>Name = ''/etc/a.txt'', Op = Write\<rparr>, fs_world)]"
  let ?rs' = "[(FromEvents \<lparr>Name = ''/etc/a.txt'', Op = Remove\<rparr>, no_file)]"
  let ?st = "foldl (onReceive ?files) (addWatches ?files (hashFiles fs_hello ?files)) ?rs"
  let ?st' = "foldl (onReceive ?files) (addWatches ?files (hashFiles fs_hello ?files)) (?rs @ ?rs')"
  have h1: "watchAuto None fs_hello ?files ?rs = Inr ?st"
    by (simp add: watchAuto_def panicOnError_def)
  have h2: "watchAuto None fs_hello ?files (?rs @ ?rs') = Inr ?st'"
    by (simp add: watchAuto_def panicOnError_def)
  show ?thesis
    using store_keys_are_base_names [OF h1 h2, of "[fs_world]" "[no_file]" fs_world knows_hello
        "''/etc/a.txt''"] h1
    by blast
qed

subsection \<open>The scenario of the specification\<close>

text \<open>
  Two files that both differ from what the map holds give one notification in a sweep.
  \<^verbatim>\<open>a.txt\<close> is watched with content \<^verbatim>\<open>hello\<close>: rewritten to \<^verbatim>\<open>world\<close>, the next tick notifies
  once and the tick after it does not; a tick at which the file cannot be read changes
  nothing, before or after; content that stays \<^verbatim>\<open>hello\<close> never notifies.
\<close>

lemma coalescing_example:
  "notifications (trace (tick fs_both [''/etc/a.txt'', ''/tmp/b.pem''] empty_state)) = [True]"
  by (simp add: tick_def fileChanged_def hashFile_def index_def fs_examples Base_examples
      Sum256_hello Sum256_world D1_neq_D2 empty_state_def Let_def)

lemma scenario_example:
  "notifications (trace (watchTimed fs_hello [''/etc/a.txt''] [fs_world])) = [True]"
  "notifications (trace (watchTimed fs_hello [''/etc/a.txt''] [fs_world, fs_world])) = [True]"
  "notifications (trace (watchTimed fs_hello [''/etc/a.txt''] [fs_world, no_file, fs_world])) = [True]"
  "notifications (trace (watchTimed fs_hello [''/etc/a.txt''] [fs_hello, no_file, fs_hello])) = []"
  by (simp_all add: watchTimed_def hashFiles_def tick_def fileChanged_def hashFile_def index_def
      fs_examples Base_examples Sum256_hello Sum256_world D1_neq_D2 Let_def)

end
